theory Spec2Isabelle
  imports Complex_Main "HOL-Library.Multiset" "HOL-Library.AList"
begin

section \<open>Python values and data frames\<close>

text \<open>
  A Python float is either a finite number or one of the three special values. The
  code under study never computes with floats: it classifies them (\<^verbatim>\<open>pd.isna\<close>,
  \<^verbatim>\<open>np.isnan\<close>) and pandas compares them. A finite float is kept as the rational
  number it stands for.
\<close>

datatype pyfloat = Finite rat | PosInf | NegInf | NaN

text \<open>
  The scalars that occur as cells of a data frame read from a CSV file: \<^verbatim>\<open>None\<close>,
  \<^verbatim>\<open>pd.NA\<close>, \<^verbatim>\<open>bool\<close>, \<^verbatim>\<open>int\<close>, \<^verbatim>\<open>float\<close> and \<^verbatim>\<open>str\<close>.
\<close>

datatype scalar =
    PNone
  | PNA
  | PBool bool
  | PInt int
  | PFloat pyfloat
  | PStr string

text \<open>
  The JSON-like values built from them: a scalar, a \<^verbatim>\<open>list\<close>, or a \<^verbatim>\<open>dict\<close> with
  string keys (an association list in insertion order).
\<close>

datatype pyval =
    Atom scalar
  | PList "pyval list"
  | PDict "(string \<times> pyval) list"

text \<open>
  A \<^verbatim>\<open>pandas.DataFrame\<close>: the column names and the rows, each row holding one cell
  per column.
\<close>

record dataframe =
  columns :: "string list"
  records :: "scalar list list"

text \<open>The results file on disk: its content parses as a table, or \<^verbatim>\<open>pd.read_csv\<close> raises.\<close>

datatype csv_file = Unreadable | Table dataframe

datatype exn = SniffError | WriteError | PipelineError | KeyError | ReadError

section \<open>live\_capture\_loop.py\<close>

text \<open>
  The module's three globals (\<^verbatim>\<open>running\<close>, \<^verbatim>\<open>loop_thread\<close>,
  \<^verbatim>\<open>last_capture_file\<close>) together with the effects the module has on its
  surroundings: the threads it started, the \<^verbatim>\<open>join\<close> calls it made, the capture
  files it wrote, the pipeline invocations (by input path) and the content of
  \<^verbatim>\<open>live/live_predictions.csv\<close>. A thread handle is the number of the thread.
\<close>

record world =
  running :: bool
  loop_thread :: "nat option"
  last_capture_file :: "string option"
  threads_started :: nat
  join_calls :: nat
  pcap_files :: "string list"
  pipeline_calls :: "string list"
  results_file :: "csv_file option"

text \<open>
  \<^verbatim>\<open>start_capture\<close> returns \<^verbatim>\<open>None\<close> (here \<open>None\<close>) or \<^verbatim>\<open>True\<close>. The thread it
  starts runs \<^verbatim>\<open>background_loop\<close> on its own schedule, not inside this call.
\<close>

definition start_capture :: "world \<Rightarrow> bool option \<times> world" where
  "start_capture w =
     (if running w then (None, w)
      else (Some True,
            w\<lparr>running := True,
              loop_thread := Some (threads_started w),
              threads_started := Suc (threads_started w)\<rparr>))"

text \<open>\<open>alive\<close> is the answer of \<^verbatim>\<open>loop_thread.is_alive()\<close>.\<close>

definition stop_capture :: "world \<Rightarrow> bool \<Rightarrow> bool \<times> world" where
  "stop_capture w alive =
     (let w1 = w\<lparr>running := False\<rparr> in
      if loop_thread w1 \<noteq> None \<and> alive
      then (True, w1\<lparr>join_calls := Suc (join_calls w1)\<rparr>)
      else (True, w1))"

definition is_running :: "world \<Rightarrow> bool" where
  "is_running w = running w"

definition get_last_capture :: "world \<Rightarrow> string option" where
  "get_last_capture w =
     (case last_capture_file w of
        None \<Rightarrow> None
      | Some s \<Rightarrow> if s = [] then None else Some s)"

text \<open>The state of the module when it has just been imported.\<close>

definition initial :: world where
  "initial = \<lparr>running = False, loop_thread = None, last_capture_file = None,
              threads_started = 0, join_calls = 0, pcap_files = [],
              pipeline_calls = [], results_file = None\<rparr>"

text \<open>
  While the worker is blocked in \<^verbatim>\<open>sniff\<close>, \<^verbatim>\<open>wrpcap\<close>, \<^verbatim>\<open>run_pipeline\<close> or
  \<^verbatim>\<open>time.sleep\<close>, the request handlers may call \<^verbatim>\<open>stop_capture\<close> and
  \<^verbatim>\<open>start_capture\<close>, any number of times and in any order: a stop (with the answer
  of \<^verbatim>\<open>is_alive\<close> it gets) or a start. Their effect on the module state is that of
  the two functions above. (What a second worker does, once such a start has launched
  one, is not followed.)
\<close>

datatype ctl = Stop bool | Start

fun control :: "ctl \<Rightarrow> world \<Rightarrow> world" where
  "control (Stop alive) w = snd (stop_capture w alive)"
| "control Start w = snd (start_capture w)"

definition others :: "ctl list \<Rightarrow> world \<Rightarrow> world" where
  "others ks w = fold control ks w"

text \<open>
  What the surroundings do during one iteration of the worker: the outcome of
  \<^verbatim>\<open>sniff\<close> (\<open>None\<close> when it raises, otherwise the number of packets), the
  formatted \<^verbatim>\<open>datetime.now()\<close>, whether \<^verbatim>\<open>wrpcap\<close> succeeds, the outcome of
  \<^verbatim>\<open>run_pipeline\<close> (\<open>None\<close> when it raises, otherwise the data frame it returns),
  and, for each blocking call, the calls of \<^verbatim>\<open>stop_capture\<close> and
  \<^verbatim>\<open>start_capture\<close> that other threads make while the worker is blocked there.
\<close>

record cycle =
  sniffed :: "nat option"
  in_sniff :: "ctl list"
  now :: string
  wrote :: bool
  in_write :: "ctl list"
  pipeline :: "dataframe option"
  in_pipeline :: "ctl list"
  in_sleep :: "ctl list"

definition capture_name :: "string \<Rightarrow> string" where
  "capture_name ts = ''capture_'' @ ts @ ''.pcap''"

definition pcap_path :: "string \<Rightarrow> string" where
  "pcap_path ts = ''live/capture_'' @ ts @ ''.pcap''"

text \<open>
  Modelled from the spec: \<^verbatim>\<open>run_pipeline\<close> (module \<^verbatim>\<open>inference.live_predict\<close>) is
  not among the sources. It is given a capture path and the fixed output path; when it
  returns a table, that table has replaced the results file, and when it raises, the
  results file is as before.
\<close>

definition run_pipeline :: "string \<Rightarrow> dataframe option \<Rightarrow> world \<Rightarrow> (exn + dataframe) \<times> world" where
  "run_pipeline path out w =
     (let w' = w\<lparr>pipeline_calls := pipeline_calls w @ [path]\<rparr>
      in case out of
           None \<Rightarrow> (Inl PipelineError, w')
         | Some df \<Rightarrow> (Inr df, w'\<lparr>results_file := Some (Table df)\<rparr>))"

text \<open>
  \<^verbatim>\<open>capture_once\<close>: the result is the exception that escapes, or the returned value
  (\<open>None\<close> for Python's \<^verbatim>\<open>None\<close>), with the world afterwards.
\<close>

definition capture_once :: "world \<Rightarrow> cycle \<Rightarrow> (exn + dataframe option) \<times> world" where
  "capture_once w c =
     (if \<not> running w then (Inr None, w)
      else
        let w1 = others (in_sniff c) w in
        case sniffed c of
          None \<Rightarrow> (Inl SniffError, w1)
        | Some n \<Rightarrow>
            if n = 0 \<or> \<not> running w1 then (Inr None, w1)
            else
              let w2 = w1\<lparr>last_capture_file := Some (capture_name (now c))\<rparr> in
              if \<not> wrote c then (Inl WriteError, others (in_write c) w2)
              else
                let w3 = others (in_write c)
                           (w2\<lparr>pcap_files := pcap_files w2 @ [pcap_path (now c)]\<rparr>) in
                if \<not> running w3 then (Inr None, w3)
                else
                  (case run_pipeline (pcap_path (now c)) (pipeline c) w3 of
                     (Inl e, w4) \<Rightarrow> (Inl e, others (in_pipeline c) w4)
                   | (Inr df, w4) \<Rightarrow> (Inr (Some df), others (in_pipeline c) w4)))"

text \<open>
  How the worker's loop ends on a finite schedule of iterations: the loop condition or
  the \<^verbatim>\<open>break\<close> left it, an exception escaped, or the schedule ran out with the loop
  still going.
\<close>

datatype loop_exit = Exited | Raised exn | Pending

text \<open>
  The \<^verbatim>\<open>while running\<close> loop of \<^verbatim>\<open>background_loop\<close>. The natural number counts the
  calls of \<^verbatim>\<open>capture_once\<close>.
\<close>

fun loop :: "world \<Rightarrow> cycle list \<Rightarrow> loop_exit \<times> world \<times> nat" where
  "loop w [] = (if running w then (Pending, w, 0) else (Exited, w, 0))"
| "loop w (c # cs) =
     (if \<not> running w then (Exited, w, 0)
      else
        case capture_once w c of
          (Inl e, w') \<Rightarrow> (Raised e, w', 1)
        | (Inr df, w') \<Rightarrow>
            if \<not> running w' then (Exited, w', 1)
            else
              (case loop (others (in_sleep c) w') cs of
                 (x, w'', n) \<Rightarrow> (x, w'', Suc n)))"

definition background_loop :: "world \<Rightarrow> cycle list \<Rightarrow> loop_exit \<times> world \<times> nat" where
  "background_loop w cs = loop (w\<lparr>running := True\<rparr>) cs"

section \<open>api\_server.py: the status endpoint\<close>

text \<open>\<^verbatim>\<open>pd.isna\<close> on a scalar: \<^verbatim>\<open>None\<close>, \<^verbatim>\<open>pd.NA\<close> and the float NaN are missing.\<close>

definition isna :: "scalar \<Rightarrow> bool" where
  "isna v = (v = PNone \<or> v = PNA \<or> v = PFloat NaN)"

text \<open>
  \<^verbatim>\<open>replace_nan_with_none\<close>, in the order of its \<^verbatim>\<open>isinstance\<close> tests: dict, list,
  float, int, anything else. The last three are its branches on a scalar: a float is
  replaced by \<^verbatim>\<open>None\<close> when it is NaN; an int goes through \<^verbatim>\<open>int(obj)\<close>, and so
  does a Python \<^verbatim>\<open>bool\<close>, which is an instance of \<^verbatim>\<open>int\<close>; anything else is
  returned as it is.
\<close>

fun replace_nan_scalar :: "scalar \<Rightarrow> scalar" where
  "replace_nan_scalar (PFloat f) = (if f = NaN then PNone else PFloat f)"
| "replace_nan_scalar (PInt i) = PInt i"
| "replace_nan_scalar (PBool b) = PInt (if b then 1 else 0)"
| "replace_nan_scalar v = v"

primrec replace_nan_with_none :: "pyval \<Rightarrow> pyval" where
  "replace_nan_with_none (PDict kvs) = PDict (map (map_prod id replace_nan_with_none) kvs)"
| "replace_nan_with_none (PList xs) = PList (map replace_nan_with_none xs)"
| "replace_nan_with_none (Atom a) = Atom (replace_nan_scalar a)"

text \<open>\<^verbatim>\<open>df.replace({np.nan: None, pd.NA: None})\<close>, cell by cell.\<close>

definition replace_cell :: "scalar \<Rightarrow> scalar" where
  "replace_cell v = (if v = PFloat NaN \<or> v = PNA then PNone else v)"

definition df_replace :: "dataframe \<Rightarrow> dataframe" where
  "df_replace df = df\<lparr>records := map (map replace_cell) (records df)\<rparr>"

text \<open>
  The cell of a row in a named column. A data frame is rectangular, so the lookup
  succeeds for every column of the frame; a cell that is not there reads as \<^verbatim>\<open>None\<close>.
\<close>

definition cell :: "dataframe \<Rightarrow> scalar list \<Rightarrow> string \<Rightarrow> scalar" where
  "cell df r name = (case map_of (zip (columns df) r) name of Some v \<Rightarrow> v | None \<Rightarrow> PNone)"

text \<open>\<^verbatim>\<open>df[name]\<close>: the column as a series, or \<^verbatim>\<open>KeyError\<close>.\<close>

definition getcol :: "dataframe \<Rightarrow> string \<Rightarrow> exn + scalar list" where
  "getcol df name =
     (if name \<in> set (columns df) then Inr (map (\<lambda>r. cell df r name) (records df))
      else Inl KeyError)"

text \<open>
  Python's \<^verbatim>\<open>==\<close> on scalars, which is also how pandas tells the values of a column
  apart: numbers are compared by value, so \<^verbatim>\<open>1\<close>, \<^verbatim>\<open>1.0\<close> and \<^verbatim>\<open>True\<close> are
  equal; NaN equals nothing; anything else equals only itself.
\<close>

fun num :: "scalar \<Rightarrow> rat option" where
  "num (PBool b) = Some (if b then 1 else 0)"
| "num (PInt i) = Some (of_int i)"
| "num (PFloat (Finite q)) = Some q"
| "num v = None"

definition py_eq :: "scalar \<Rightarrow> scalar \<Rightarrow> bool" where
  "py_eq a b =
     (case (num a, num b) of
        (Some x, Some y) \<Rightarrow> x = y
      | (None, None) \<Rightarrow> a = b \<and> a \<noteq> PFloat NaN
      | _ \<Rightarrow> False)"

text \<open>\<^verbatim>\<open>df[df[name] == v]\<close>: the rows whose cell in that column equals the value.\<close>

definition select_rows :: "dataframe \<Rightarrow> string \<Rightarrow> scalar \<Rightarrow> dataframe" where
  "select_rows df name v = df\<lparr>records := filter (\<lambda>r. py_eq (cell df r name) v) (records df)\<rparr>"

text \<open>
  \<^verbatim>\<open>Series.value_counts().to_dict()\<close>: the values that are not missing, equal values
  taken together under the first of them, each with the number of its occurrences, by
  decreasing count. (pandas does not fix the order among equal counts; here it is the
  order of first occurrence.)
\<close>

fun uniq_by :: "('a \<Rightarrow> 'a \<Rightarrow> bool) \<Rightarrow> 'a list \<Rightarrow> 'a list" where
  "uniq_by eq [] = []"
| "uniq_by eq (x # xs) = x # uniq_by eq (filter (\<lambda>y. \<not> eq x y) xs)"

definition value_counts :: "scalar list \<Rightarrow> (scalar \<times> nat) list" where
  "value_counts xs =
     (let ys = filter (\<lambda>v. \<not> isna v) xs
      in sort_key (\<lambda>kc. - int (snd kc))
           (map (\<lambda>k. (k, length (filter (py_eq k) ys))) (uniq_by py_eq ys)))"

text \<open>\<^verbatim>\<open>d.get(k)\<close> on such a dict: the value under the key equal to \<^verbatim>\<open>k\<close>, if there is one.\<close>

definition dict_get :: "(scalar \<times> 'v) list \<Rightarrow> scalar \<Rightarrow> 'v option" where
  "dict_get d k = map_option snd (find (\<lambda>kv. py_eq (fst kv) k) d)"

text \<open>\<^verbatim>\<open>df.to_dict(orient="records")\<close>: one dict per row, keyed by column name.\<close>

definition to_dict_records :: "dataframe \<Rightarrow> pyval" where
  "to_dict_records df = PList (map (\<lambda>r. PDict (zip (columns df) (map Atom r))) (records df))"

text \<open>
  Python's \<^verbatim>\<open>str\<close>: the identity on a string. How the interpreter prints any other
  scalar is not part of this program and is the parameter \<open>fmt\<close>.
\<close>

definition py_str :: "(scalar \<Rightarrow> string) \<Rightarrow> scalar \<Rightarrow> string" where
  "py_str fmt v = (case v of PStr s \<Rightarrow> s | _ \<Rightarrow> fmt v)"

text \<open>
  A dict built from items in order: a key that comes again keeps its place and takes
  the later value.
\<close>

definition dict_of_items :: "(string \<times> int) list \<Rightarrow> (string \<times> int) list" where
  "dict_of_items items = foldl (\<lambda>d kv. AList.update (fst kv) (snd kv) d) [] items"

text \<open>\<^verbatim>\<open>int(summary.get(l, 0)) if summary.get(l) is not None else 0\<close>\<close>

definition summary_get :: "(scalar \<times> nat) list \<Rightarrow> string \<Rightarrow> int" where
  "summary_get summ l = (case dict_get summ (PStr l) of None \<Rightarrow> 0 | Some n \<Rightarrow> int n)"

text \<open>
  The JSON object that \<^verbatim>\<open>live_status\<close> returns. In the function below, the
  \<^verbatim>\<open>if "Attack_Type" in df.columns\<close> and the \<^verbatim>\<open>if not attack_df.empty\<close> inside
  it are one condition, and of the filter \<^verbatim>\<open>pd.notna(k) and pd.notna(v)\<close> only the
  test of the key is written: the value is a count, an integer.
\<close>

record snapshot =
  r_running :: bool
  r_last_capture :: "string option"
  flows :: int
  summary :: "(string \<times> int) list"
  attack_types :: "(string \<times> int) list"
  all_flows :: pyval

definition live_status :: "(scalar \<Rightarrow> string) \<Rightarrow> world \<Rightarrow> exn + snapshot" where
  "live_status fmt w =
     (let run = is_running w;
          last_capture = get_last_capture w
      in case results_file w of
           None \<Rightarrow>
             Inr \<lparr>r_running = run, r_last_capture = last_capture, flows = 0,
                  summary = [(''BENIGN'', 0), (''ANOMALY'', 0), (''ATTACK'', 0)],
                  attack_types = [], all_flows = PList []\<rparr>
         | Some Unreadable \<Rightarrow> Inl ReadError
         | Some (Table df0) \<Rightarrow>
             let df = df_replace df0 in
             (case getcol df ''Label'' of
                Inl e \<Rightarrow> Inl e
              | Inr labels \<Rightarrow>
                  let summ = value_counts labels;
                      result_summary =
                        [(''BENIGN'', summary_get summ ''BENIGN''),
                         (''ANOMALY'', summary_get summ ''ANOMALY''),
                         (''ATTACK'', summary_get summ ''ATTACK'')];
                      attack_df = select_rows df ''Label'' (PStr ''ATTACK'');
                      attack_counts =
                        value_counts (map (\<lambda>r. cell attack_df r ''Attack_Type'') (records attack_df));
                      atypes =
                        (if ''Attack_Type'' \<in> set (columns df) \<and> records attack_df \<noteq> []
                         then dict_of_items
                                (map (\<lambda>kv. (py_str fmt (fst kv), int (snd kv)))
                                   (filter (\<lambda>kv. \<not> isna (fst kv)) attack_counts))
                         else []);
                      flows_list = replace_nan_with_none (to_dict_records (df_replace df))
                  in Inr \<lparr>r_running = run, r_last_capture = last_capture,
                          flows = int (length (records df)), summary = result_summary,
                          attack_types = atypes, all_flows = flows_list\<rparr>))"

section \<open>What the claims speak about\<close>

text \<open>A missing-value sentinel (NaN or \<^verbatim>\<open>pd.NA\<close>) somewhere in a value.\<close>

fun has_sentinel :: "pyval \<Rightarrow> bool" where
  "has_sentinel (PDict kvs) = list_ex (\<lambda>kv. has_sentinel (snd kv)) kvs"
| "has_sentinel (PList xs) = list_ex has_sentinel xs"
| "has_sentinel (Atom a) = (a = PFloat NaN \<or> a = PNA)"

text \<open>A \<^verbatim>\<open>pd.NA\<close> somewhere in a value.\<close>

fun has_na :: "pyval \<Rightarrow> bool" where
  "has_na (PDict kvs) = list_ex (\<lambda>kv. has_na (snd kv)) kvs"
| "has_na (PList xs) = list_ex has_na xs"
| "has_na (Atom a) = (a = PNA)"

text \<open>Every float in a value is a finite number, and there is no \<^verbatim>\<open>pd.NA\<close>.\<close>

fun all_finite :: "pyval \<Rightarrow> bool" where
  "all_finite (PDict kvs) = list_all (\<lambda>kv. all_finite (snd kv)) kvs"
| "all_finite (PList xs) = list_all all_finite xs"
| "all_finite (Atom a) =
     (case a of PFloat f \<Rightarrow> (case f of Finite q \<Rightarrow> True | _ \<Rightarrow> False)
              | PNA \<Rightarrow> False
              | _ \<Rightarrow> True)"

text \<open>
  The part of the module state that \<^verbatim>\<open>start_capture\<close> and \<^verbatim>\<open>stop_capture\<close> work
  on: the flag, the thread handle, the threads started and the joins made.
\<close>

definition ctrl :: "world \<Rightarrow> bool \<times> nat option \<times> nat \<times> nat" where
  "ctrl w = (running w, loop_thread w, threads_started w, join_calls w)"

text \<open>
  The calls that other threads made during a cycle, in order: those that fell into the
  blocking calls the cycle reached.
\<close>

definition heard :: "world \<Rightarrow> cycle \<Rightarrow> ctl list" where
  "heard w c =
     (if \<not> running w then []
      else
        case sniffed c of
          None \<Rightarrow> in_sniff c
        | Some n \<Rightarrow>
            if n = 0 \<or> \<not> running (others (in_sniff c) w) then in_sniff c
            else if \<not> wrote c then in_sniff c @ in_write c
            else if \<not> running (others (in_sniff c @ in_write c) w) then in_sniff c @ in_write c
            else in_sniff c @ in_write c @ in_pipeline c)"

text \<open>The same for the loop: the calls heard in its cycles and in the sleeps between them.\<close>

fun heard_loop :: "world \<Rightarrow> cycle list \<Rightarrow> ctl list" where
  "heard_loop w [] = []"
| "heard_loop w (c # cs) =
     (if \<not> running w then []
      else
        case capture_once w c of
          (Inl e, w') \<Rightarrow> heard w c
        | (Inr df, w') \<Rightarrow>
            if \<not> running w' then heard w c
            else heard w c @ in_sleep c @ heard_loop (others (in_sleep c) w') cs)"

text \<open>
  The counts as the specification words them, on the table as it stands in the results
  file: the number of rows with a given label, and the attack-type cells of the rows
  labelled ATTACK.
\<close>

definition label_count :: "dataframe \<Rightarrow> string \<Rightarrow> nat" where
  "label_count df l = length (filter (\<lambda>r. cell df r ''Label'' = PStr l) (records df))"

definition attack_cells :: "dataframe \<Rightarrow> scalar list" where
  "attack_cells df =
     map (\<lambda>r. cell df r ''Attack_Type'')
       (filter (\<lambda>r. cell df r ''Label'' = PStr ''ATTACK'') (records df))"

text \<open>
  The items of the dict comprehension that builds \<open>attack_types\<close> in \<open>live_status\<close>,
  from the attack-type cells of a table as read: the cells pass \<open>df_replace\<close> and
  \<open>value_counts\<close>, and each value that is not missing gives one item.
\<close>

definition items_of :: "(scalar \<Rightarrow> string) \<Rightarrow> scalar list \<Rightarrow> (string \<times> int) list" where
  "items_of fmt xs =
     map (\<lambda>kv. (py_str fmt (fst kv), int (snd kv)))
       (filter (\<lambda>kv. \<not> isna (fst kv)) (value_counts (map replace_cell xs)))"

section \<open>Concrete states and schedules\<close>

definition w_run :: world where
  "w_run = initial\<lparr>running := True, loop_thread := Some 0,
                   last_capture_file := Some ''capture_old.pcap'', threads_started := 1\<rparr>"

definition df_one :: dataframe where
  "df_one = \<lparr>columns = [''Label''], records = [[PStr ''BENIGN'']]\<rparr>"

text \<open>
  Cycles: a healthy one; one whose pipeline raises; one stopped while the capture is
  written; one that captures nothing; one stopped during the capture; and one during
  whose capture a stop is followed by a start.
\<close>

definition c_ok :: cycle where
  "c_ok = \<lparr>sniffed = Some 5, in_sniff = [], now = ''2024-01-01_00-00-11'',
           wrote = True, in_write = [], pipeline = Some df_one,
           in_pipeline = [], in_sleep = []\<rparr>"

definition c_fail :: cycle where
  "c_fail = \<lparr>sniffed = Some 5, in_sniff = [], now = ''2024-01-01_00-00-00'',
             wrote = True, in_write = [], pipeline = None,
             in_pipeline = [], in_sleep = []\<rparr>"

definition c_stopped :: cycle where
  "c_stopped = \<lparr>sniffed = Some 5, in_sniff = [], now = ''2024-01-01_00-00-00'',
                wrote = True, in_write = [Stop True], pipeline = Some df_one,
                in_pipeline = [], in_sleep = []\<rparr>"

definition c_empty :: cycle where
  "c_empty = \<lparr>sniffed = Some 0, in_sniff = [], now = ''2024-01-01_00-00-00'',
              wrote = True, in_write = [], pipeline = Some df_one,
              in_pipeline = [], in_sleep = []\<rparr>"

definition c_stop_sniff :: cycle where
  "c_stop_sniff = \<lparr>sniffed = Some 5, in_sniff = [Stop True], now = ''2024-01-01_00-00-00'',
                   wrote = True, in_write = [], pipeline = Some df_one,
                   in_pipeline = [], in_sleep = []\<rparr>"

definition c_restart :: cycle where
  "c_restart = \<lparr>sniffed = Some 5, in_sniff = [Stop True, Start], now = ''2024-01-01_00-00-00'',
                wrote = True, in_write = [], pipeline = Some df_one,
                in_pipeline = [], in_sleep = []\<rparr>"

text \<open>
  Tables for the status endpoint: one with a NaN, a \<^verbatim>\<open>pd.NA\<close> and an infinite rate;
  the three rows of the specification's scenario with one more row of an unknown label
  and an ATTACK row without attack type; and one without a \<open>Label\<close> column.
\<close>

definition df_inf :: dataframe where
  "df_inf = \<lparr>columns = [''Label'', ''Rate''],
             records = [[PStr ''BENIGN'', PFloat PosInf], [PNA, PFloat NaN]]\<rparr>"

definition df_scenario :: dataframe where
  "df_scenario = \<lparr>columns = [''Label'', ''Attack_Type'', ''Rate''],
                  records = [[PStr ''BENIGN'', PFloat NaN, PFloat (Finite 3)],
                             [PStr ''ATTACK'', PStr ''SYN-flood'', PFloat NaN],
                             [PStr ''BENIGN'', PFloat NaN, PInt 7],
                             [PStr ''OTHER'', PFloat NaN, PInt 1],
                             [PStr ''ATTACK'', PFloat NaN, PInt 2]]\<rparr>"

definition df_nolabel :: dataframe where
  "df_nolabel = \<lparr>columns = [''Attack_Type''], records = [[PStr ''SYN-flood'']]\<rparr>"

text \<open>A printer for the scalars that are not strings; it is not used on strings.\<close>

definition fmt0 :: "scalar \<Rightarrow> string" where
  "fmt0 v = ''?''"

definition w_inf :: world where
  "w_inf = initial\<lparr>results_file := Some (Table df_inf)\<rparr>"

definition w_scenario :: world where
  "w_scenario = w_run\<lparr>results_file := Some (Table df_scenario)\<rparr>"

definition w_nolabel :: world where
  "w_nolabel = initial\<lparr>results_file := Some (Table df_nolabel)\<rparr>"

definition w_unreadable :: world where
  "w_unreadable = initial\<lparr>results_file := Some Unreadable\<rparr>"

section \<open>The worker: start, stop, one cycle, the loop\<close>

subsection \<open>Calls of other threads\<close>

lemma others_Nil [simp]: "others [] w = w"
  by (simp add: others_def)

lemma others_Cons [simp]: "others (k # ks) w = others ks (control k w)"
  by (simp add: others_def)

lemma others_append: "others (ks @ ls) w = others ls (others ks w)"
  by (simp add: others_def)

lemma control_last_capture_file [simp]:
  "control k (w\<lparr>last_capture_file := x\<rparr>) = (control k w)\<lparr>last_capture_file := x\<rparr>"
  by (cases k) (simp_all add: start_capture_def stop_capture_def Let_def)

lemma control_pcap_files [simp]:
  "control k (w\<lparr>pcap_files := x\<rparr>) = (control k w)\<lparr>pcap_files := x\<rparr>"
  by (cases k) (simp_all add: start_capture_def stop_capture_def Let_def)

lemma control_pipeline_calls [simp]:
  "control k (w\<lparr>pipeline_calls := x\<rparr>) = (control k w)\<lparr>pipeline_calls := x\<rparr>"
  by (cases k) (simp_all add: start_capture_def stop_capture_def Let_def)

lemma control_results_file [simp]:
  "control k (w\<lparr>results_file := x\<rparr>) = (control k w)\<lparr>results_file := x\<rparr>"
  by (cases k) (simp_all add: start_capture_def stop_capture_def Let_def)

lemma control_keeps [simp]:
  "last_capture_file (control k w) = last_capture_file w
   \<and> pcap_files (control k w) = pcap_files w
   \<and> pipeline_calls (control k w) = pipeline_calls w
   \<and> results_file (control k w) = results_file w"
  by (cases k) (simp_all add: start_capture_def stop_capture_def Let_def)

lemma others_last_capture_file [simp]:
  "others ks (w\<lparr>last_capture_file := x\<rparr>) = (others ks w)\<lparr>last_capture_file := x\<rparr>"
  by (induction ks arbitrary: w) simp_all

lemma others_pcap_files [simp]:
  "others ks (w\<lparr>pcap_files := x\<rparr>) = (others ks w)\<lparr>pcap_files := x\<rparr>"
  by (induction ks arbitrary: w) simp_all

lemma others_pipeline_calls [simp]:
  "others ks (w\<lparr>pipeline_calls := x\<rparr>) = (others ks w)\<lparr>pipeline_calls := x\<rparr>"
  by (induction ks arbitrary: w) simp_all

lemma others_results_file [simp]:
  "others ks (w\<lparr>results_file := x\<rparr>) = (others ks w)\<lparr>results_file := x\<rparr>"
  by (induction ks arbitrary: w) simp_all

lemma others_keeps [simp]:
  "last_capture_file (others ks w) = last_capture_file w
   \<and> pcap_files (others ks w) = pcap_files w
   \<and> pipeline_calls (others ks w) = pipeline_calls w
   \<and> results_file (others ks w) = results_file w"
  by (induction ks arbitrary: w) simp_all

lemma ctrl_updates [simp]:
  "ctrl (w\<lparr>last_capture_file := a\<rparr>) = ctrl w"
  "ctrl (w\<lparr>pcap_files := b\<rparr>) = ctrl w"
  "ctrl (w\<lparr>pipeline_calls := b\<rparr>) = ctrl w"
  "ctrl (w\<lparr>results_file := d\<rparr>) = ctrl w"
  by (simp_all add: ctrl_def)

lemma ctrl_control_cong:
  "ctrl v = ctrl w \<Longrightarrow> ctrl (control k v) = ctrl (control k w)"
  by (cases k) (auto simp add: ctrl_def start_capture_def stop_capture_def Let_def)

lemma ctrl_others_cong:
  "ctrl v = ctrl w \<Longrightarrow> ctrl (others ks v) = ctrl (others ks w)"
proof (induction ks arbitrary: v w)
  case Nil
  then show ?case by simp
next
  case (Cons k ks)
  from Cons.prems have "ctrl (control k v) = ctrl (control k w)"
    by (rule ctrl_control_cong)
  then have "ctrl (others ks (control k v)) = ctrl (others ks (control k w))"
    by (rule Cons.IH)
  then show ?case by simp
qed

lemma ctrl_running: "ctrl v = ctrl w \<Longrightarrow> running v = running w"
  by (simp add: ctrl_def)

lemma capture_once_ctrl:
  "ctrl (snd (capture_once w c)) = ctrl (others (heard w c) w)"
  by (simp add: capture_once_def heard_def run_pipeline_def Let_def others_append
      split: option.splits)

lemma loop_ctrl:
  "ctrl (fst (snd (loop w cs))) = ctrl (others (heard_loop w cs) w)"
proof (induction cs arbitrary: w)
  case Nil
  show ?case by simp
next
  case (Cons c cs)
  show ?case
  proof (cases "capture_once w c")
    case (Pair r w')
    have co: "ctrl w' = ctrl (others (heard w c) w)"
      using capture_once_ctrl [of w c] Pair by simp
    show ?thesis
    proof (cases r)
      case (Inl e)
      with Pair co show ?thesis by simp
    next
      case (Inr df)
      let ?v = "others (in_sleep c) w'"
      have "ctrl ?v = ctrl (others (in_sleep c) (others (heard w c) w))"
        using co by (rule ctrl_others_cong)
      then have "ctrl (others (heard_loop ?v cs) ?v) =
                 ctrl (others (heard_loop ?v cs) (others (in_sleep c) (others (heard w c) w)))"
        by (rule ctrl_others_cong)
      with Cons.IH [of ?v]
      have "ctrl (fst (snd (loop ?v cs))) =
            ctrl (others (heard w c @ in_sleep c @ heard_loop ?v cs) w)"
        by (simp add: others_append)
      with Pair Inr co show ?thesis by (auto split: prod.splits)
    qed
  qed
qed

text \<open>
  Claim C9. When \<^verbatim>\<open>running\<close> is already true, \<^verbatim>\<open>start_capture\<close> returns at once
  (with \<^verbatim>\<open>None\<close>, no exception) and leaves the whole state as it was: no thread is
  started, and neither \<^verbatim>\<open>running\<close> nor \<^verbatim>\<open>loop_thread\<close> changes.
\<close>
theorem start_capture_idempotent:
  "running w \<Longrightarrow> start_capture w = (None, w)"
  by (simp add: start_capture_def)

theorem start_capture_idempotent_witness:
  "running w_run \<and> start_capture w_run = (None, w_run)"
  using start_capture_idempotent [of w_run] by (simp add: w_run_def initial_def)

text \<open>
  Claim C10. \<^verbatim>\<open>start_capture\<close> returns \<^verbatim>\<open>True\<close> exactly when it starts a new
  thread and \<^verbatim>\<open>None\<close> when a worker is already running; \<^verbatim>\<open>stop_capture\<close> returns
  \<^verbatim>\<open>True\<close> in every state, also in the initial one where no worker was ever started.
\<close>
theorem start_stop_return_values:
  "fst (start_capture w) = (if running w then None else Some True)
   \<and> threads_started (snd (start_capture w)) =
       (if running w then threads_started w else Suc (threads_started w))
   \<and> fst (stop_capture w alive) = True
   \<and> fst (stop_capture initial alive) = True"
  by (simp add: start_capture_def stop_capture_def Let_def)

text \<open>
  Claim C1 says that the worker goes on to another iteration after a cycle whose
  pipeline raised. In the code nothing catches the exception: when the pipeline of an
  iteration raises, \<^verbatim>\<open>background_loop\<close> ends with that exception after this one call
  of \<^verbatim>\<open>capture_once\<close>, whatever iterations were still to come, and \<^verbatim>\<open>running\<close>
  stays as the other threads left it: true, unless a stop arrived meanwhile.
\<close>
theorem pipeline_failure_ends_loop:
  assumes "sniffed c = Some n" and "0 < n" and "wrote c" and "pipeline c = None"
    and "running (others (in_sniff c) (w\<lparr>running := True\<rparr>))"
    and "running (others (in_write c) (others (in_sniff c) (w\<lparr>running := True\<rparr>)))"
  shows "fst (background_loop w (c # cs)) = Raised PipelineError
     \<and> snd (snd (background_loop w (c # cs))) = 1
     \<and> running (fst (snd (background_loop w (c # cs)))) =
         running (others (in_pipeline c) (others (in_write c) (others (in_sniff c)
           (w\<lparr>running := True\<rparr>))))"
  using assms by (simp add: background_loop_def capture_once_def run_pipeline_def Let_def)

theorem pipeline_failure_ends_loop_witness:
  "fst (background_loop initial [c_fail, c_ok]) = Raised PipelineError
   \<and> snd (snd (background_loop initial [c_fail, c_ok])) = 1
   \<and> running (fst (snd (background_loop initial [c_fail, c_ok]))) = True
   \<and> snd (snd (background_loop initial [c_ok, c_ok])) = 2"
proof -
  have a: "sniffed c_fail = Some 5" "(0::nat) < 5" "wrote c_fail" "pipeline c_fail = None"
    "running (others (in_sniff c_fail) (initial\<lparr>running := True\<rparr>))"
    "running (others (in_write c_fail) (others (in_sniff c_fail) (initial\<lparr>running := True\<rparr>)))"
    by (simp_all add: c_fail_def)
  have b: "snd (snd (background_loop initial [c_ok, c_ok])) = 2"
    by (simp add: background_loop_def capture_once_def run_pipeline_def Let_def
        c_ok_def initial_def)
  show ?thesis
    using pipeline_failure_ends_loop [OF a, of "[c_ok]"] b
    by (simp add: c_fail_def)
qed

text \<open>
  Claim C2 as stated fails. In a running worker with an earlier capture on record, a
  cycle whose pipeline raises, and a cycle stopped after the capture was written (which
  returns \<^verbatim>\<open>None\<close>), both leave \<^verbatim>\<open>get_last_capture\<close> at the new file name.
\<close>
theorem last_capture_changed_by_failed_cycle:
  "fst (capture_once w_run c_fail) = Inl PipelineError
   \<and> get_last_capture w_run = Some ''capture_old.pcap''
   \<and> get_last_capture (snd (capture_once w_run c_fail)) = Some ''capture_2024-01-01_00-00-00.pcap''
   \<and> fst (capture_once w_run c_stopped) = Inr None
   \<and> pcap_files (snd (capture_once w_run c_stopped)) = [''live/capture_2024-01-01_00-00-00.pcap'']
   \<and> get_last_capture (snd (capture_once w_run c_stopped)) = Some ''capture_2024-01-01_00-00-00.pcap''"
  by (simp add: capture_once_def run_pipeline_def get_last_capture_def capture_name_def
      pcap_path_def stop_capture_def Let_def w_run_def initial_def c_fail_def c_stopped_def)

text \<open>
  Claim C2, amended. \<^verbatim>\<open>last_capture_file\<close> is assigned as soon as a running cycle
  has sniffed at least one packet and finds \<^verbatim>\<open>running\<close> still true when the capture
  returns, before the capture is written and before the pipeline is called. After such
  a cycle \<^verbatim>\<open>get_last_capture\<close> gives the new capture's name, whatever the pipeline
  does; after any other cycle it gives what it gave before.
\<close>
theorem last_capture_after_cycle:
  "get_last_capture (snd (capture_once w c)) =
     (if running w \<and> (\<exists>n. sniffed c = Some n \<and> 0 < n) \<and> running (others (in_sniff c) w)
      then Some (capture_name (now c))
      else get_last_capture w)"
  by (auto simp add: capture_once_def run_pipeline_def get_last_capture_def capture_name_def
      Let_def split: option.splits)

theorem last_capture_after_cycle_witness:
  "get_last_capture (snd (capture_once w_run c_empty)) = Some ''capture_old.pcap''
   \<and> get_last_capture (snd (capture_once w_run c_ok)) = Some ''capture_2024-01-01_00-00-11.pcap''"
  using last_capture_after_cycle [of w_run c_empty] last_capture_after_cycle [of w_run c_ok]
  by (simp add: w_run_def initial_def c_empty_def c_ok_def capture_name_def get_last_capture_def)




text \<open>
  Claim C4 as stated fails: \<^verbatim>\<open>background_loop\<close> assigns \<^verbatim>\<open>running\<close>. Entered with
  \<^verbatim>\<open>running\<close> false, it has set it to true.
\<close>
theorem background_loop_writes_running:
  "\<not> running initial \<and> fst (background_loop initial []) = Pending
   \<and> running (fst (snd (background_loop initial [])))"
  by (simp add: background_loop_def initial_def)

text \<open>
  Claim C4, amended. \<^verbatim>\<open>capture_once\<close> writes neither \<^verbatim>\<open>running\<close> nor
  \<^verbatim>\<open>loop_thread\<close>, and starts and joins no thread: after a cycle these are exactly
  what the calls of \<^verbatim>\<open>start_capture\<close> and \<^verbatim>\<open>stop_capture\<close> that other threads
  made during the cycle have made of them. \<^verbatim>\<open>background_loop\<close> assigns
  \<^verbatim>\<open>running = True\<close> once, on entry, and from there on the same holds of its loop.
  \<^verbatim>\<open>loop_thread\<close> is written by \<^verbatim>\<open>start_capture\<close> alone, when it launches a worker;
  \<^verbatim>\<open>start_capture\<close> leaves \<^verbatim>\<open>running\<close> true and \<^verbatim>\<open>stop_capture\<close> leaves it false.
\<close>
theorem writers_of_running_and_loop_thread:
  "ctrl (snd (capture_once w c)) = ctrl (others (heard w c) w)
   \<and> ctrl (fst (snd (background_loop w cs))) =
       ctrl (others (heard_loop (w\<lparr>running := True\<rparr>) cs) (w\<lparr>running := True\<rparr>))
   \<and> loop_thread (snd (start_capture w)) =
       (if running w then loop_thread w else Some (threads_started w))
   \<and> running (snd (start_capture w)) = True
   \<and> loop_thread (snd (stop_capture w alive)) = loop_thread w
   \<and> running (snd (stop_capture w alive)) = False"
proof -
  have d: "loop_thread (snd (start_capture w)) =
       (if running w then loop_thread w else Some (threads_started w))
     \<and> running (snd (start_capture w)) = True
     \<and> loop_thread (snd (stop_capture w alive)) = loop_thread w
     \<and> running (snd (stop_capture w alive)) = False"
    by (simp add: start_capture_def stop_capture_def Let_def)
  from d capture_once_ctrl [of w c] loop_ctrl [of "w\<lparr>running := True\<rparr>" cs]
  show ?thesis by (simp add: background_loop_def)
qed

theorem writers_of_running_and_loop_thread_witness:
  "heard w_run c_stopped = [Stop True]
   \<and> ctrl (snd (capture_once w_run c_stopped)) = (False, Some 0, 1, 1)
   \<and> heard w_run c_ok = []
   \<and> ctrl (snd (capture_once w_run c_ok)) = ctrl w_run
   \<and> heard_loop (w_run\<lparr>running := True\<rparr>) [c_ok, c_stopped, c_ok] = [Stop True]
   \<and> ctrl (fst (snd (background_loop w_run [c_ok, c_stopped, c_ok]))) = (False, Some 0, 1, 1)"
proof -
  have h: "heard w_run c_stopped = [Stop True]" "heard w_run c_ok = []"
    by (simp_all add: heard_def w_run_def initial_def c_stopped_def c_ok_def)
  have l: "heard_loop (w_run\<lparr>running := True\<rparr>) [c_ok, c_stopped, c_ok] = [Stop True]"
    by (simp add: heard_def capture_once_def run_pipeline_def Let_def stop_capture_def
        w_run_def initial_def c_stopped_def c_ok_def)
  show ?thesis
    using h l
      writers_of_running_and_loop_thread [of w_run c_stopped "[c_ok, c_stopped, c_ok]" True]
      writers_of_running_and_loop_thread [of w_run c_ok "[]" True]
    by (simp add: ctrl_def stop_capture_def Let_def w_run_def initial_def)
qed

section \<open>The status endpoint\<close>

subsection \<open>Cells and replaced frames\<close>

lemma map_of_zip_map2:
  "map_of (zip ks (map f vs)) k = map_option f (map_of (zip ks vs) k)"
proof (induction ks arbitrary: vs)
  case Nil
  show ?case by simp
next
  case (Cons a ks)
  show ?case by (cases vs) (simp_all add: Cons.IH)
qed

lemma replace_cell_PNone [simp]: "replace_cell PNone = PNone"
  by (simp add: replace_cell_def)

lemma replace_cell_idem [simp]: "replace_cell (replace_cell v) = replace_cell v"
  by (simp add: replace_cell_def)

lemma replace_cell_eq_notna: "\<not> isna k \<Longrightarrow> (replace_cell v = k) = (v = k)"
  by (auto simp add: replace_cell_def isna_def)

lemma isna_replace_cell [simp]: "isna (replace_cell v) = isna v"
  by (auto simp add: replace_cell_def isna_def)

lemma replace_cell_PStr: "(replace_cell v = PStr l) = (v = PStr l)"
  by (rule replace_cell_eq_notna) (simp add: isna_def)

lemma columns_df_replace [simp]: "columns (df_replace df) = columns df"
  by (simp add: df_replace_def)

lemma records_df_replace [simp]: "records (df_replace df) = map (map replace_cell) (records df)"
  by (simp add: df_replace_def)

lemma df_replace_idem: "df_replace (df_replace df) = df_replace df"
  by (simp add: df_replace_def comp_def)

lemma cell_df_replace:
  "cell (df_replace df) (map replace_cell r) name = replace_cell (cell df r name)"
  by (simp add: cell_def map_of_zip_map2 split: option.splits)

lemma cell_select_rows [simp]: "cell (select_rows df n v) r name = cell df r name"
  by (simp add: cell_def select_rows_def)

subsection \<open>Equality of scalars\<close>

lemma py_eq_PStr [simp]: "py_eq k (PStr t) = (k = PStr t)"
  by (cases k rule: num.cases) (auto simp add: py_eq_def)

lemma py_eq_PStr_left [simp]: "py_eq (PStr t) k = (k = PStr t)"
  by (cases k rule: num.cases) (auto simp add: py_eq_def)

lemma py_eq_refl: "\<not> isna v \<Longrightarrow> py_eq v v"
  by (cases v rule: num.cases) (auto simp add: py_eq_def isna_def)

subsection \<open>Value counts\<close>

lemma set_uniq_by: "set (uniq_by eq xs) \<subseteq> set xs"
proof (induction eq xs rule: uniq_by.induct)
  case (1 eq)
  show ?case by simp
next
  case (2 eq x xs)
  then show ?case by auto
qed

lemma distinct_uniq_by:
  "(\<And>x. x \<in> set xs \<Longrightarrow> eq x x) \<Longrightarrow> distinct (uniq_by eq xs)"
proof (induction eq xs rule: uniq_by.induct)
  case (1 eq)
  show ?case by simp
next
  case (2 eq x xs)
  have "x \<notin> set (uniq_by eq (filter (\<lambda>y. \<not> eq x y) xs))"
    using set_uniq_by [of eq "filter (\<lambda>y. \<not> eq x y) xs"] "2.prems" [of x] by auto
  moreover have "distinct (uniq_by eq (filter (\<lambda>y. \<not> eq x y) xs))"
    using "2.prems" by (intro "2.IH") simp
  ultimately show ?case by simp
qed

lemma mem_uniq_by_exact:
  "(\<And>x. eq x k = (x = k)) \<Longrightarrow> (k \<in> set (uniq_by eq xs)) = (k \<in> set xs)"
proof (induction eq xs rule: uniq_by.induct)
  case (1 eq)
  show ?case by simp
next
  case (2 eq x xs)
  have "(k \<in> set (uniq_by eq (filter (\<lambda>y. \<not> eq x y) xs))) =
        (k \<in> set (filter (\<lambda>y. \<not> eq x y) xs))"
    using "2.prems" by (rule "2.IH")
  then show ?case using "2.prems" [of x] by auto
qed

lemma distinct_fst_sort_key:
  assumes "distinct (map fst xs)"
  shows "distinct (map fst (sort_key f xs))"
proof -
  have "mset (map fst (sort_key f xs)) = mset (map fst xs)"
    by simp
  then show ?thesis
    using assms by (metis mset_eq_imp_distinct_iff)
qed

lemma map_of_sort_key:
  assumes "distinct (map fst xs)"
  shows "map_of (sort_key f xs) = map_of xs"
  using assms distinct_fst_sort_key [OF assms, of f] by (simp add: map_of_inject_set)

lemma distinct_keys_unsorted:
  "distinct (map fst (map (\<lambda>k. (k, f k)) (uniq_by py_eq (filter (\<lambda>v. \<not> isna v) xs))))"
proof -
  have "distinct (uniq_by py_eq (filter (\<lambda>v. \<not> isna v) xs))"
    by (rule distinct_uniq_by) (simp add: py_eq_refl)
  then show ?thesis by (simp add: comp_def)
qed

lemma distinct_fst_value_counts: "distinct (map fst (value_counts xs))"
  unfolding value_counts_def Let_def
  by (rule distinct_fst_sort_key) (rule distinct_keys_unsorted)

lemma keys_value_counts: "fst ` set (value_counts xs) \<subseteq> {k \<in> set xs. \<not> isna k}"
proof -
  have "fst ` set (value_counts xs) = set (uniq_by py_eq (filter (\<lambda>v. \<not> isna v) xs))"
    by (simp add: value_counts_def Let_def image_image)
  then show ?thesis
    using set_uniq_by [of py_eq "filter (\<lambda>v. \<not> isna v) xs"] by auto
qed

lemma count_list_filter_notna:
  "\<not> isna k \<Longrightarrow> length (filter (\<lambda>y. y = k) (filter (\<lambda>v. \<not> isna v) xs)) = count_list xs k"
  by (induction xs) auto

lemma map_of_value_counts_PStr:
  "map_of (value_counts xs) (PStr t) =
     (if PStr t \<in> set xs then Some (count_list xs (PStr t)) else None)"
proof -
  let ?ys = "filter (\<lambda>v. \<not> isna v) xs"
  let ?l = "map (\<lambda>k. (k, length (filter (py_eq k) ?ys))) (uniq_by py_eq ?ys)"
  have n: "\<not> isna (PStr t)" by (simp add: isna_def)
  have "map_of (value_counts xs) = map_of ?l"
    unfolding value_counts_def Let_def
    by (rule map_of_sort_key) (rule distinct_keys_unsorted)
  moreover have "(PStr t \<in> set (uniq_by py_eq ?ys)) = (PStr t \<in> set xs)"
    using n by (simp add: mem_uniq_by_exact)
  moreover have "length (filter (py_eq (PStr t)) ?ys) = count_list xs (PStr t)"
    using count_list_filter_notna [OF n, of xs] by simp
  ultimately show ?thesis
    by (simp add: map_of_map_restrict restrict_map_def)
qed

lemma dict_get_PStr: "dict_get d (PStr t) = map_of d (PStr t)"
  by (induction d) (auto simp add: dict_get_def)

lemma summary_get_value_counts:
  "summary_get (value_counts xs) l = int (count_list xs (PStr l))"
  by (simp add: summary_get_def dict_get_PStr map_of_value_counts_PStr)

lemma count_list_replace_cell:
  "\<not> isna k \<Longrightarrow> count_list (map replace_cell xs) k = count_list xs k"
  by (induction xs) (simp_all add: replace_cell_eq_notna)

lemma count_list_map_filter:
  "count_list (map f xs) y = length (filter (\<lambda>x. f x = y) xs)"
  by (induction xs) simp_all

lemma value_counts_merges_equal_numbers:
  "value_counts [PInt 1, PFloat (Finite 1), PBool True, PStr ''1'', PNone] =
     [(PInt 1, 3), (PStr ''1'', 1)]"
  by code_simp

subsection \<open>Dicts built from items\<close>

lemma map_of_foldl_update:
  "map_of (foldl (\<lambda>d kv. AList.update (fst kv) (snd kv) d) d items) =
     map_of d ++ map_of (rev items)"
proof (induction items arbitrary: d)
  case Nil
  show ?case by simp
next
  case (Cons kv items)
  show ?case
    by (simp add: Cons.IH update_conv' map_add_def fun_eq_iff split: option.splits)
qed

lemma distinct_foldl_update:
  "distinct (map fst d) \<Longrightarrow>
   distinct (map fst (foldl (\<lambda>d kv. AList.update (fst kv) (snd kv) d) d items))"
  by (induction items arbitrary: d) (simp_all add: distinct_update)

lemma map_of_dict_of_items: "map_of (dict_of_items items) = map_of (rev items)"
  by (simp add: dict_of_items_def map_of_foldl_update)

lemma distinct_dict_of_items: "distinct (map fst (dict_of_items items))"
  by (simp add: dict_of_items_def distinct_foldl_update)

lemma map_of_rev_distinct:
  assumes "distinct (map fst xs)"
  shows "map_of (rev xs) = map_of xs"
proof -
  have "distinct (map fst (rev xs))"
    using assms by (simp add: rev_map [symmetric])
  then show ?thesis
    using assms by (simp add: map_of_inject_set)
qed

subsection \<open>No results file yet\<close>

text \<open>
  Claim C8. When there is no results file, \<^verbatim>\<open>live_status\<close> returns, without an
  exception, the running flag and the last capture name of the worker state, with
  \<open>flows = 0\<close>, a summary of zero for BENIGN, ANOMALY and ATTACK, no attack types and
  an empty list of flows.
\<close>
theorem live_status_without_results:
  assumes "results_file w = None"
  shows "live_status fmt w =
     Inr \<lparr>r_running = running w, r_last_capture = get_last_capture w, flows = 0,
          summary = [(''BENIGN'', 0), (''ANOMALY'', 0), (''ATTACK'', 0)],
          attack_types = [], all_flows = PList []\<rparr>"
  using assms by (simp add: live_status_def is_running_def)

theorem live_status_without_results_witness:
  "results_file w_run = None
   \<and> live_status fmt0 w_run =
     Inr \<lparr>r_running = True, r_last_capture = Some ''capture_old.pcap'', flows = 0,
          summary = [(''BENIGN'', 0), (''ANOMALY'', 0), (''ATTACK'', 0)],
          attack_types = [], all_flows = PList []\<rparr>"
proof -
  have n: "results_file w_run = None" by (simp add: w_run_def initial_def)
  show ?thesis
    using n live_status_without_results [OF n, of fmt0]
    by (simp add: w_run_def initial_def get_last_capture_def)
qed

subsection \<open>Sanitisation\<close>

lemma replace_nan_scalar_sentinel:
  "(replace_nan_scalar a = PFloat NaN \<or> replace_nan_scalar a = PNA) = (a = PNA)"
  by (cases a) auto

lemma replace_nan_with_none_sentinels:
  "has_sentinel (replace_nan_with_none v) = has_na v"
proof (induction v)
  case (Atom a)
  show ?case by (simp add: replace_nan_scalar_sentinel)
next
  case (PList xs)
  then show ?case by (simp add: list_ex_iff)
next
  case (PDict kvs)
  have "has_sentinel (replace_nan_with_none (snd kv)) = has_na (snd kv)"
    if "kv \<in> set kvs" for kv
    using PDict [OF that, of "snd kv"] by (cases kv) simp
  then show ?case by (simp add: list_ex_iff)
qed

lemma replace_cell_not_NA: "replace_cell a \<noteq> PNA"
  by (simp add: replace_cell_def)

lemma no_na_records: "\<not> has_na (to_dict_records (df_replace df))"
  by (auto simp add: to_dict_records_def list_ex_iff replace_cell_not_NA dest!: set_zip_rightD)

text \<open>
  So a snapshot of \<^verbatim>\<open>live_status\<close> holds no NaN and no \<^verbatim>\<open>pd.NA\<close> in any row.
\<close>

lemma live_status_no_sentinel:
  assumes "live_status fmt w = Inr s"
  shows "\<not> has_sentinel (all_flows s)"
proof (cases "results_file w")
  case None
  with assms have "all_flows s = PList []"
    by (auto simp add: live_status_def)
  then show ?thesis by simp
next
  case (Some f)
  show ?thesis
  proof (cases f)
    case Unreadable
    with Some assms show ?thesis by (simp add: live_status_def)
  next
    case (Table df)
    with Some assms have
      "all_flows s = replace_nan_with_none (to_dict_records (df_replace (df_replace df)))"
      by (auto simp add: live_status_def Let_def split: sum.splits)
    then show ?thesis
      by (simp add: replace_nan_with_none_sentinels no_na_records
          del: replace_nan_with_none.simps)
  qed
qed

text \<open>
  Claim C3 says that every number in the snapshot is finite or \<^verbatim>\<open>None\<close>. The code,
  which cleans the rows for JSON serialisation, tests for NaN and \<^verbatim>\<open>pd.NA\<close> alone:
  of a results file with an infinite float in a row, the NaN and the \<^verbatim>\<open>pd.NA\<close> are
  replaced by \<^verbatim>\<open>None\<close>, and the infinity is still in \<open>all_flows\<close>.
\<close>
theorem infinite_rate_reaches_snapshot:
  "results_file w_inf = Some (Table df_inf)
   \<and> records df_inf = [[PStr ''BENIGN'', PFloat PosInf], [PNA, PFloat NaN]]
   \<and> live_status fmt0 w_inf =
     Inr \<lparr>r_running = False, r_last_capture = None, flows = 2,
          summary = [(''BENIGN'', 1), (''ANOMALY'', 0), (''ATTACK'', 0)],
          attack_types = [],
          all_flows = PList [PDict [(''Label'', Atom (PStr ''BENIGN'')), (''Rate'', Atom (PFloat PosInf))],
                             PDict [(''Label'', Atom PNone), (''Rate'', Atom PNone)]]\<rparr>
   \<and> \<not> all_finite (PList [PDict [(''Label'', Atom (PStr ''BENIGN'')), (''Rate'', Atom (PFloat PosInf))],
                             PDict [(''Label'', Atom PNone), (''Rate'', Atom PNone)]])"
proof -
  have "live_status fmt0 w_inf =
     Inr \<lparr>r_running = False, r_last_capture = None, flows = 2,
          summary = [(''BENIGN'', 1), (''ANOMALY'', 0), (''ATTACK'', 0)],
          attack_types = [],
          all_flows = PList [PDict [(''Label'', Atom (PStr ''BENIGN'')), (''Rate'', Atom (PFloat PosInf))],
                             PDict [(''Label'', Atom PNone), (''Rate'', Atom PNone)]]\<rparr>"
    by code_simp
  then show ?thesis
    by (simp add: w_inf_def df_inf_def initial_def)
qed

subsection \<open>Flow, label and attack-type counts\<close>

lemma labels_replaced:
  "''Label'' \<in> set (columns df) \<Longrightarrow>
   getcol (df_replace df) ''Label'' = Inr (map (\<lambda>r. replace_cell (cell df r ''Label'')) (records df))"
  by (simp add: getcol_def cell_df_replace comp_def)

lemma summary_get_labels:
  "summary_get (value_counts (map (\<lambda>r. replace_cell (cell df r ''Label'')) (records df))) l =
     int (label_count df l)"
  by (simp add: summary_get_value_counts count_list_map_filter label_count_def replace_cell_PStr)

lemma attack_rows_replaced:
  "records (select_rows (df_replace df) ''Label'' (PStr ''ATTACK'')) =
     map (map replace_cell) (filter (\<lambda>r. cell df r ''Label'' = PStr ''ATTACK'') (records df))"
  by (simp add: select_rows_def filter_map comp_def cell_df_replace replace_cell_PStr)

lemma attack_cells_replaced:
  "map (\<lambda>r. cell (select_rows (df_replace df) ''Label'' (PStr ''ATTACK'')) r ''Attack_Type'')
       (records (select_rows (df_replace df) ''Label'' (PStr ''ATTACK''))) =
   map replace_cell (attack_cells df)"
  by (simp add: attack_rows_replaced attack_cells_def comp_def cell_df_replace)

lemma attack_cells_missing_column:
  "''Attack_Type'' \<notin> set (columns df) \<Longrightarrow> k \<in> set (attack_cells df) \<Longrightarrow> isna k"
proof -
  assume a: "''Attack_Type'' \<notin> set (columns df)" and k: "k \<in> set (attack_cells df)"
  have n: "\<And>r. map_of (zip (columns df) r) ''Attack_Type'' = None"
    using a by (auto simp add: map_of_eq_None_iff dest: set_zip_leftD)
  have "\<And>r. cell df r ''Attack_Type'' = PNone"
    by (simp add: cell_def n)
  with k show ?thesis by (auto simp add: attack_cells_def isna_def)
qed

lemma live_status_table:
  assumes "results_file w = Some (Table df)" and "''Label'' \<in> set (columns df)"
  shows "live_status fmt w =
     Inr \<lparr>r_running = running w, r_last_capture = get_last_capture w,
          flows = int (length (records df)),
          summary = [(''BENIGN'', int (label_count df ''BENIGN'')),
                     (''ANOMALY'', int (label_count df ''ANOMALY'')),
                     (''ATTACK'', int (label_count df ''ATTACK''))],
          attack_types =
            (if ''Attack_Type'' \<in> set (columns df) \<and> attack_cells df \<noteq> []
             then dict_of_items (items_of fmt (attack_cells df)) else []),
          all_flows = replace_nan_with_none (to_dict_records (df_replace df))\<rparr>"
proof -
  have e: "(records (select_rows (df_replace df) ''Label'' (PStr ''ATTACK'')) \<noteq> []) =
           (attack_cells df \<noteq> [])"
    by (simp add: attack_rows_replaced attack_cells_def)
  show ?thesis
    unfolding live_status_def Let_def
    by (simp only: assms labels_replaced summary_get_labels attack_cells_replaced e
        df_replace_idem items_of_def [symmetric] is_running_def columns_df_replace
        records_df_replace length_map option.case csv_file.case sum.case)
qed

text \<open>Attack types that are strings or missing.\<close>

lemma map_of_filter_keys:
  "map_of (filter (\<lambda>kv. P (fst kv)) l) k = (if P k then map_of l k else None)"
  by (induction l) auto

lemma map_of_string_items:
  assumes "\<And>kv. kv \<in> set l \<Longrightarrow> \<exists>t. fst kv = PStr t"
  shows "map_of (map (\<lambda>kv. (py_str fmt (fst kv), int (snd kv))) l) t =
         map_option int (map_of l (PStr t))"
  using assms
proof (induction l)
  case Nil
  show ?case by simp
next
  case (Cons kv l)
  obtain u where u: "fst kv = PStr u"
    using Cons.prems [of kv] by auto
  have "map_of (map (\<lambda>kv. (py_str fmt (fst kv), int (snd kv))) l) t =
        map_option int (map_of l (PStr t))"
    using Cons.prems by (intro Cons.IH) simp
  then show ?case
    using u by (cases kv) (simp add: py_str_def)
qed

lemma distinct_string_items:
  assumes "\<And>kv. kv \<in> set l \<Longrightarrow> \<exists>t. fst kv = PStr t" and "distinct (map fst l)"
  shows "distinct (map fst (map (\<lambda>kv. (py_str fmt (fst kv), int (snd kv))) l))"
proof -
  have i: "inj_on (py_str fmt) (set (map fst l))"
  proof (rule inj_onI)
    fix a b
    assume a: "a \<in> set (map fst l)" and b: "b \<in> set (map fst l)"
      and e: "py_str fmt a = py_str fmt b"
    from a assms(1) obtain t where t: "a = PStr t" by auto
    from b assms(1) obtain u where u: "b = PStr u" by auto
    from e t u show "a = b" by (simp add: py_str_def)
  qed
  have e: "map fst (map (\<lambda>kv. (py_str fmt (fst kv), int (snd kv))) l) =
        map (py_str fmt) (map fst l)"
    by (simp add: comp_def)
  have "distinct (map (py_str fmt) (map fst l))"
    by (rule iffD2 [OF distinct_map]) (rule conjI [OF assms(2) i])
  then show ?thesis
    by (simp only: e)
qed

lemma map_of_items_of:
  assumes "\<And>k. k \<in> set xs \<Longrightarrow> isna k \<or> (\<exists>t. k = PStr t)"
  shows "map_of (dict_of_items (items_of fmt xs)) t =
     (if PStr t \<in> set xs then Some (int (count_list xs (PStr t))) else None)"
proof -
  let ?vc = "value_counts (map replace_cell xs)"
  let ?f = "filter (\<lambda>kv. \<not> isna (fst kv)) ?vc"
  have n: "\<not> isna (PStr t)" by (simp add: isna_def)
  have keys: "\<exists>u. fst kv = PStr u" if "kv \<in> set ?f" for kv
  proof -
    from that have "fst kv \<in> fst ` set ?vc" and na: "\<not> isna (fst kv)" by auto
    then have "fst kv \<in> set (map replace_cell xs)"
      using keys_value_counts [of "map replace_cell xs"] by auto
    then obtain x where x: "x \<in> set xs" and e: "fst kv = replace_cell x" by auto
    from na e have "\<not> isna x" by simp
    with assms [OF x] obtain u where "x = PStr u" by auto
    with e show ?thesis by (simp add: replace_cell_def)
  qed
  have d: "distinct (map fst ?f)"
    using distinct_fst_value_counts [of "map replace_cell xs"] by (simp add: distinct_map_filter)
  have di: "distinct (map fst (items_of fmt xs))"
    unfolding items_of_def using keys d by (rule distinct_string_items)
  have m: "(PStr t \<in> set (map replace_cell xs)) = (PStr t \<in> set xs)"
  proof
    assume "PStr t \<in> set (map replace_cell xs)"
    then obtain x where "x \<in> set xs" and "replace_cell x = PStr t" by auto
    then show "PStr t \<in> set xs" by (simp add: replace_cell_PStr)
  next
    assume "PStr t \<in> set xs"
    then have "replace_cell (PStr t) \<in> set (map replace_cell xs)" by simp
    then show "PStr t \<in> set (map replace_cell xs)" by (simp add: replace_cell_def)
  qed
  have "map_of (dict_of_items (items_of fmt xs)) t = map_of (items_of fmt xs) t"
    using di by (simp add: map_of_dict_of_items map_of_rev_distinct)
  also have "\<dots> = map_option int (map_of ?f (PStr t))"
    unfolding items_of_def using keys by (rule map_of_string_items)
  also have "\<dots> = map_option int (map_of ?vc (PStr t))"
    using n map_of_filter_keys [of "\<lambda>k. \<not> isna k" ?vc "PStr t"] by simp
  also have "\<dots> = (if PStr t \<in> set xs then Some (int (count_list xs (PStr t))) else None)"
    using n m by (simp add: map_of_value_counts_PStr count_list_replace_cell)
  finally show ?thesis .
qed



lemma scenario_facts:
  "label_count df_scenario ''BENIGN'' = 2"
  "label_count df_scenario ''ANOMALY'' = 0"
  "label_count df_scenario ''ATTACK'' = 2"
  "attack_cells df_scenario = [PStr ''SYN-flood'', PFloat NaN]"
  "length (records df_scenario) = 5"
  by code_simp+


end
